theory Spec2Isabelle
  imports Main "HOL-Library.AList"
begin

section \<open>Data model of \<^verbatim>\<open>SchemaBuilder.tsx\<close>\<close>

text \<open>
  \<^verbatim>\<open>export type FieldType = "string" | "number" | "nested";\<close>
\<close>

datatype FieldType = String | Number | Nested

text \<open>
  \<^verbatim>\<open>interface SchemaField { id; name; type; enabled; nested?: SchemaField[] }\<close>.
  The optional property \<^verbatim>\<open>nested\<close> is an option: \<open>None\<close> is an absent or
  \<^verbatim>\<open>undefined\<close> property, \<open>Some []\<close> is the empty array (which is truthy in
  JavaScript, unlike \<^verbatim>\<open>undefined\<close>).
\<close>

datatype SchemaField =
  SchemaField (field_id: string) (name: string) (type: FieldType) (enabled: bool)
    (nested: "SchemaField list option")

text \<open>
  The values that \<^verbatim>\<open>convertFieldsToSchema\<close> builds: strings and plain objects. An
  object is the list of its own enumerable properties in the order of their creation,
  which is all that \<^verbatim>\<open>JSON.stringify(schema, null, 2)\<close> reads. (The printed order
  puts integer-like keys first; no statement below depends on the order of printing.)
\<close>

datatype json = JString string | JObject "(string \<times> json) list"

text \<open>
  \<^verbatim>\<open>Partial<SchemaField>\<close>: every property may be missing. For \<^verbatim>\<open>nested\<close> the
  source also stores an explicit \<^verbatim>\<open>undefined\<close> (\<open>Some None\<close>), which the spread
  \<^verbatim>\<open>{ ...field, ...updates }\<close> copies over the old value.
\<close>

datatype Partial_SchemaField =
  Partial (id_update: "string option") (name_update: "string option")
    (type_update: "FieldType option") (enabled_update: "bool option")
    (nested_update: "SchemaField list option option")

text \<open>The object literals \<^verbatim>\<open>{ name: v }\<close>, \<^verbatim>\<open>{ type: v }\<close>,
  \<^verbatim>\<open>{ enabled }\<close> and \<^verbatim>\<open>{ nested: v }\<close>, and the assignment
  \<^verbatim>\<open>updates.nested = v\<close>.\<close>

definition only_name :: "string \<Rightarrow> Partial_SchemaField" where
  "only_name v = Partial None (Some v) None None None"

definition only_type :: "FieldType \<Rightarrow> Partial_SchemaField" where
  "only_type v = Partial None None (Some v) None None"

definition only_enabled :: "bool \<Rightarrow> Partial_SchemaField" where
  "only_enabled v = Partial None None None (Some v) None"

definition only_nested :: "SchemaField list \<Rightarrow> Partial_SchemaField" where
  "only_nested v = Partial None None None None (Some (Some v))"

definition set_nested :: "SchemaField list option \<Rightarrow> Partial_SchemaField \<Rightarrow> Partial_SchemaField" where
  "set_nested v updates =
     Partial (id_update updates) (name_update updates) (type_update updates)
       (enabled_update updates) (Some v)"

text \<open>The events of the user interface; \<open>AddItem\<close> carries the text that
  \<^verbatim>\<open>Math.random().toString(36)\<close> returns when the handler runs.\<close>

datatype event =
    NameInput string
  | TypeSelect FieldType
  | EnabledSwitch bool
  | AddItem string
  | Row nat event
  | RemoveRow nat

section \<open>Arrays\<close>

text \<open>
  \<^verbatim>\<open>a[index] = v\<close> on a copy of the array. Inside the array the element is replaced.
  At or beyond the end JavaScript does not fail: the array grows up to \<open>index\<close>, and
  the positions skipped are empty slots (\<open>None\<close>). The index is a natural number: every
  caller passes the position that \<^verbatim>\<open>Array.prototype.map\<close> gave it.
\<close>

definition array_store :: "'a list \<Rightarrow> nat \<Rightarrow> 'a \<Rightarrow> 'a option list" where
  "array_store xs index v =
     (if index < length xs then map Some (xs[index := v])
      else map Some xs @ replicate (index - length xs) None @ [Some v])"

text \<open>\<^verbatim>\<open>xs.filter((_, i) => i !== index)\<close>\<close>

definition filter_other_index :: "nat \<Rightarrow> 'a list \<Rightarrow> 'a list" where
  "filter_other_index index xs = map snd (filter (\<lambda>p. fst p \<noteq> index) (enumerate 0 xs))"

text \<open>\<^verbatim>\<open>field.nested || []\<close>\<close>

definition nested_or_empty :: "SchemaField \<Rightarrow> SchemaField list" where
  "nested_or_empty field = (case nested field of None \<Rightarrow> [] | Some cs \<Rightarrow> cs)"

section \<open>Field Tree operations\<close>

text \<open>
  \<^verbatim>\<open>const generateId = () => Math.random().toString(36).substr(2, 9);\<close>
  The random number is an input from the environment; the argument is its rendering in
  base 36, such as \<open>''0.i''\<close> for \<open>0.5\<close>. \<^verbatim>\<open>substr(2, 9)\<close> drops two characters
  and keeps at most nine.
\<close>

definition generateId :: "string \<Rightarrow> string" where
  "generateId random36 = take 9 (drop 2 random36)"

text \<open>The object literal of \<^verbatim>\<open>addField\<close> and \<^verbatim>\<open>addNestedField\<close>.\<close>

definition newField :: "string \<Rightarrow> SchemaField" where
  "newField random36 = SchemaField (generateId random36) '''' String True None"

text \<open>\<^verbatim>\<open>{ ...field, ...updates }\<close>\<close>

definition spread :: "SchemaField \<Rightarrow> Partial_SchemaField \<Rightarrow> SchemaField" where
  "spread field updates =
     SchemaField
       (case id_update updates of None \<Rightarrow> field_id field | Some v \<Rightarrow> v)
       (case name_update updates of None \<Rightarrow> name field | Some v \<Rightarrow> v)
       (case type_update updates of None \<Rightarrow> type field | Some v \<Rightarrow> v)
       (case enabled_update updates of None \<Rightarrow> enabled field | Some v \<Rightarrow> v)
       (case nested_update updates of None \<Rightarrow> nested field | Some v \<Rightarrow> v)"

text \<open>
  The handlers of \<^verbatim>\<open>FieldRow\<close>. Each takes the \<^verbatim>\<open>field\<close> of the row last and
  returns the value it hands to \<^verbatim>\<open>onUpdate\<close>.
\<close>

definition FieldRow_updateField :: "Partial_SchemaField \<Rightarrow> SchemaField \<Rightarrow> SchemaField" where
  "FieldRow_updateField updates field = spread field updates"

text \<open>
  \<^verbatim>\<open>updateNestedField\<close> up to the array \<^verbatim>\<open>newNested\<close> that it builds, with
  its empty slots if the index is beyond the end; the call
  \<^verbatim>\<open>updateField({ nested: newNested })\<close> that follows is in the rule
  \<open>child_update\<close> below.
\<close>

definition updateNestedField :: "nat \<Rightarrow> SchemaField \<Rightarrow> SchemaField \<Rightarrow> SchemaField option list" where
  "updateNestedField index updatedNestedField field =
     array_store (nested_or_empty field) index updatedNestedField"

definition removeNestedField :: "nat \<Rightarrow> SchemaField \<Rightarrow> SchemaField" where
  "removeNestedField index field =
     FieldRow_updateField (only_nested (filter_other_index index (nested_or_empty field))) field"

definition addNestedField :: "string \<Rightarrow> SchemaField \<Rightarrow> SchemaField" where
  "addNestedField random36 field =
     FieldRow_updateField (only_nested (nested_or_empty field @ [newField random36])) field"

text \<open>
  \<^verbatim>\<open>onValueChange\<close> of the type selector (lines 93 to 101). \<^verbatim>\<open>!field.nested\<close>
  holds exactly when the property is absent or \<^verbatim>\<open>undefined\<close>.
\<close>

definition onValueChange :: "FieldType \<Rightarrow> SchemaField \<Rightarrow> SchemaField" where
  "onValueChange v field =
     (let updates = only_type v;
          updates' =
            (if v = Nested \<and> nested field = None then set_nested (Some []) updates
             else if v \<noteq> Nested then set_nested None updates
             else updates)
      in FieldRow_updateField updates' field)"

text \<open>The handlers of \<^verbatim>\<open>SchemaBuilder\<close>, as functions of the previous state
  \<^verbatim>\<open>prev\<close> of \<^verbatim>\<open>fields\<close>.\<close>

definition addField :: "string \<Rightarrow> SchemaField list \<Rightarrow> SchemaField list" where
  "addField random36 prev = prev @ [newField random36]"

definition updateField :: "nat \<Rightarrow> SchemaField \<Rightarrow> SchemaField list \<Rightarrow> SchemaField option list" where
  "updateField index updatedField prev = array_store prev index updatedField"

definition removeField :: "nat \<Rightarrow> SchemaField list \<Rightarrow> SchemaField list" where
  "removeField index prev = filter_other_index index prev"

text \<open>The initial state of \<^verbatim>\<open>fields\<close> (lines 163 to 196).\<close>

definition initialFields :: "SchemaField list" where
  "initialFields =
     [SchemaField ''1'' ''name'' String True None,
      SchemaField ''2'' ''class'' Number True None,
      SchemaField ''3'' ''address'' Nested True
        (Some [SchemaField ''4'' ''line'' Number True None,
               SchemaField ''5'' '''' String True None])]"

section \<open>The user interface as a transition system\<close>

text \<open>
  \<open>FieldRow field ev field'\<close>: the row rendered for \<open>field\<close> answers the event
  \<open>ev\<close> by calling \<^verbatim>\<open>onUpdate(field')\<close>. The rows of the children and the button
  \<^verbatim>\<open>+ Add Item\<close> are rendered only under \<^verbatim>\<open>field.type === "nested"\<close>, and a child
  row exists for each position of \<^verbatim>\<open>field.nested\<close>.
\<close>

inductive FieldRow :: "SchemaField \<Rightarrow> event \<Rightarrow> SchemaField \<Rightarrow> bool" where
  name_input:
    "FieldRow field (NameInput v) (FieldRow_updateField (only_name v) field)"
| type_select:
    "FieldRow field (TypeSelect v) (onValueChange v field)"
| enabled_switch:
    "FieldRow field (EnabledSwitch b) (FieldRow_updateField (only_enabled b) field)"
| add_item:
    "type field = Nested \<Longrightarrow> FieldRow field (AddItem random36) (addNestedField random36 field)"
| child_update:
    "type field = Nested \<Longrightarrow> nested field = Some cs \<Longrightarrow> index < length cs \<Longrightarrow>
     FieldRow (cs ! index) ev updatedNestedField \<Longrightarrow>
     updateNestedField index updatedNestedField field = map Some newNested \<Longrightarrow>
     FieldRow field (Row index ev)
       (FieldRow_updateField (only_nested newNested) field)"
| child_remove:
    "type field = Nested \<Longrightarrow> nested field = Some cs \<Longrightarrow> index < length cs \<Longrightarrow>
     FieldRow field (RemoveRow index) (removeNestedField index field)"

text \<open>\<open>SchemaBuilder fields ev fields'\<close>: the event \<open>ev\<close> takes the state
  \<open>fields\<close> to \<open>fields'\<close>.\<close>

inductive SchemaBuilder :: "SchemaField list \<Rightarrow> event \<Rightarrow> SchemaField list \<Rightarrow> bool" where
  root_add_item:
    "SchemaBuilder fields (AddItem random36) (addField random36 fields)"
| root_update:
    "index < length fields \<Longrightarrow> FieldRow (fields ! index) ev updatedField \<Longrightarrow>
     updateField index updatedField fields = map Some fields' \<Longrightarrow>
     SchemaBuilder fields (Row index ev) fields'"
| root_remove:
    "index < length fields \<Longrightarrow> SchemaBuilder fields (RemoveRow index) (removeField index fields)"

inductive reachable :: "SchemaField list \<Rightarrow> bool" where
  initially: "reachable initialFields"
| after_event: "reachable fields \<Longrightarrow> SchemaBuilder fields ev fields' \<Longrightarrow> reachable fields'"

text \<open>The identifier that an event generates, if any.\<close>

fun generated_id :: "event \<Rightarrow> string option" where
  "generated_id (AddItem random36) = Some (generateId random36)"
| "generated_id (Row index ev) = generated_id ev"
| "generated_id _ = None"

section \<open>Schema Projector\<close>

text \<open>
  \<^verbatim>\<open>result[fieldName] = v\<close> on an object created by \<^verbatim>\<open>{}\<close>. For every key but
  one this creates the own property, or overwrites its value where it stands. The key
  \<^verbatim>\<open>__proto__\<close> is the exception: the assignment finds the accessor
  \<^verbatim>\<open>Object.prototype.__proto__\<close> on the prototype chain and calls its setter
  (ECMAScript, \<^emph>\<open>set Object.prototype.__proto__\<close>), which ignores a string and
  makes an object the new prototype; in both cases no own property is created, and
  \<^verbatim>\<open>JSON.stringify\<close> prints none.
\<close>

definition assign :: "(string \<times> json) list \<Rightarrow> string \<Rightarrow> json \<Rightarrow> (string \<times> json) list" where
  "assign result key v = (if key = ''__proto__'' then result else AList.update key v result)"

text \<open>
  \<^verbatim>\<open>convertFieldsToSchema\<close> (lines 224 to 250): \<open>forEach\<close> is the loop
  \<^verbatim>\<open>fields.forEach\<close> threading the local object \<^verbatim>\<open>result\<close>, and \<open>callback\<close>
  is its arrow function.
\<close>

fun convertFieldsToSchema :: "SchemaField list \<Rightarrow> json"
  and forEach :: "SchemaField list \<Rightarrow> (string \<times> json) list \<Rightarrow> (string \<times> json) list"
  and callback :: "SchemaField \<Rightarrow> (string \<times> json) list \<Rightarrow> (string \<times> json) list" where
  "convertFieldsToSchema fields = JObject (forEach fields [])"
| "forEach [] result = result"
| "forEach (field # rest) result = forEach rest (callback field result)"
| "callback (SchemaField i fieldName t e ns) result =
     (if \<not> e then result
      else case t of
        String \<Rightarrow> assign result fieldName (JString (if fieldName = '''' then '''' else ''STRING''))
      | Number \<Rightarrow> assign result fieldName (JString ''number'')
      | Nested \<Rightarrow>
          (case ns of
             Some cs \<Rightarrow>
               if 0 < length cs then assign result fieldName (convertFieldsToSchema cs)
               else assign result fieldName (JObject [])
           | None \<Rightarrow> assign result fieldName (JObject [])))"

definition generateSchema :: "SchemaField list \<Rightarrow> json" where
  "generateSchema fields = convertFieldsToSchema fields"

text \<open>The entry of an object under a key.\<close>

fun entry :: "json \<Rightarrow> string \<Rightarrow> json option" where
  "entry (JObject props) key = map_of props key"
| "entry (JString s) key = None"

fun keys :: "json \<Rightarrow> string list" where
  "keys (JObject props) = map fst props"
| "keys (JString s) = []"

section \<open>Predicates on trees\<close>

text \<open>\<^verbatim>\<open>children\<close> is defined if and only if \<^verbatim>\<open>type = Nested\<close>, in the whole
  subtree.\<close>

fun children_iff_nested :: "SchemaField \<Rightarrow> bool" where
  "children_iff_nested (SchemaField i n t e ns) =
     ((ns \<noteq> None \<longleftrightarrow> t = Nested) \<and>
      (case ns of None \<Rightarrow> True | Some cs \<Rightarrow> \<forall>c \<in> set cs. children_iff_nested c))"

text \<open>The identifiers of a subtree, and of a tree.\<close>

fun ids :: "SchemaField \<Rightarrow> string list" where
  "ids (SchemaField i n t e ns) =
     i # (case ns of None \<Rightarrow> [] | Some cs \<Rightarrow> concat (map ids cs))"

definition all_ids :: "SchemaField list \<Rightarrow> string list" where
  "all_ids fields = concat (map ids fields)"

text \<open>A tree without its disabled fields, at every depth.\<close>

fun dropDisabled :: "SchemaField \<Rightarrow> SchemaField" where
  "dropDisabled (SchemaField i n t e ns) =
     SchemaField i n t e (map_option (\<lambda>cs. map dropDisabled (filter enabled cs)) ns)"

definition enabledOnly :: "SchemaField list \<Rightarrow> SchemaField list" where
  "enabledOnly fields = map dropDisabled (filter enabled fields)"

text \<open>
  The value that the projection algorithm gives a field, in the words of its description:
  the placeholder for a String (the empty string if the name is empty), \<^verbatim>\<open>"number"\<close>
  for a Number, the projection of the children for a Nested field, \<^verbatim>\<open>{}\<close> if it has none.
\<close>

definition projected_value :: "SchemaField \<Rightarrow> json" where
  "projected_value field =
     (case type field of
        String \<Rightarrow> JString (if name field = '''' then '''' else ''STRING'')
      | Number \<Rightarrow> JString ''number''
      | Nested \<Rightarrow>
          (case nested field of
             None \<Rightarrow> JObject []
           | Some cs \<Rightarrow> if cs = [] then JObject [] else convertFieldsToSchema cs))"

text \<open>The states reached when every identifier generated on the way was not in the tree
  at that moment.\<close>

inductive reachable_with_fresh_ids :: "SchemaField list \<Rightarrow> bool" where
  fresh_initially: "reachable_with_fresh_ids initialFields"
| fresh_after_event:
    "reachable_with_fresh_ids fields \<Longrightarrow> SchemaBuilder fields ev fields' \<Longrightarrow>
     \<forall>i. generated_id ev = Some i \<longrightarrow> i \<notin> set (all_ids fields) \<Longrightarrow>
     reachable_with_fresh_ids fields'"

text \<open>The trees of the examples.\<close>

definition example1 :: "SchemaField list" where
  "example1 =
     [SchemaField ''1'' ''name'' String True None,
      SchemaField ''2'' ''class'' Number True None]"

definition example2 :: "SchemaField list" where
  "example2 =
     [SchemaField ''3'' ''address'' Nested True
        (Some [SchemaField ''4'' ''line'' Number True None,
               SchemaField ''5'' '''' String True None])]"

definition example3 :: "SchemaField list" where
  "example3 =
     [SchemaField ''1'' ''name'' String True None,
      SchemaField ''2'' ''class'' Number False None]"

section \<open>Lemmas on arrays and handlers\<close>

lemma enumerate_filter_other:
  "map snd (filter (\<lambda>p. fst p \<noteq> n + i) (enumerate n xs)) = take i xs @ drop (Suc i) xs"
proof (induction xs arbitrary: n i)
  case Nil
  then show ?case by simp
next
  case (Cons x xs)
  show ?case
  proof (cases i)
    case 0
    have "filter (\<lambda>p. fst p \<noteq> n) (enumerate (Suc n) xs) = enumerate (Suc n) xs"
      by (rule filter_True) (auto simp: in_set_enumerate_eq)
    with 0 show ?thesis by simp
  next
    case (Suc j)
    with Cons.IH [of "Suc n" j] show ?thesis by simp
  qed
qed

lemma filter_other_index_eq: "filter_other_index index xs = take index xs @ drop (Suc index) xs"
  using enumerate_filter_other [of 0 index xs] by (simp add: filter_other_index_def)

lemma filter_other_index_beyond: "length xs \<le> index \<Longrightarrow> filter_other_index index xs = xs"
  by (simp add: filter_other_index_eq)

lemma set_filter_other_index: "set (filter_other_index index xs) \<subseteq> set xs"
  by (auto simp: filter_other_index_eq dest: in_set_takeD in_set_dropD)

lemma array_store_inside:
  "index < length xs \<Longrightarrow> array_store xs index v = map Some ys \<longleftrightarrow> ys = xs[index := v]"
  by (auto simp: array_store_def inj_map_eq_map)

lemma spread_simps [simp]:
  "spread field (only_name v) = SchemaField (field_id field) v (type field) (enabled field) (nested field)"
  "spread field (only_enabled b) = SchemaField (field_id field) (name field) (type field) b (nested field)"
  "spread field (only_nested cs) = SchemaField (field_id field) (name field) (type field) (enabled field) (Some cs)"
  "spread field (only_type t) = SchemaField (field_id field) (name field) t (enabled field) (nested field)"
  "spread field (set_nested ns (only_type t)) = SchemaField (field_id field) (name field) t (enabled field) ns"
  by (simp_all add: spread_def only_name_def only_enabled_def only_nested_def only_type_def set_nested_def)

lemma onValueChange_eq:
  "onValueChange v field =
     SchemaField (field_id field) (name field) v (enabled field)
       (if v = Nested then (case nested field of None \<Rightarrow> Some [] | Some cs \<Rightarrow> Some cs) else None)"
  by (auto simp: onValueChange_def FieldRow_updateField_def Let_def split: option.splits)

section \<open>The invariant on children\<close>

lemma children_iff_nested_sel:
  "children_iff_nested f \<longleftrightarrow>
     ((nested f \<noteq> None \<longleftrightarrow> type f = Nested) \<and> (\<forall>c \<in> set (nested_or_empty f). children_iff_nested c))"
  by (cases f) (auto simp: nested_or_empty_def split: option.splits)

lemma FieldRow_children_iff_nested:
  "FieldRow field ev field' \<Longrightarrow> children_iff_nested field \<Longrightarrow> children_iff_nested field'"
proof (induction rule: FieldRow.induct)
  case (name_input field v)
  then show ?case by (cases field) (simp add: FieldRow_updateField_def)
next
  case (type_select field v)
  then show ?case by (cases field) (auto simp: onValueChange_eq split: option.splits)
next
  case (enabled_switch field b)
  then show ?case by (cases field) (simp add: FieldRow_updateField_def)
next
  case (add_item field random36)
  then show ?case
    by (cases field) (auto simp: addNestedField_def FieldRow_updateField_def nested_or_empty_def newField_def split: option.splits)
next
  case (child_update field cs index ev updatedNestedField newNested)
  from child_update.hyps have "newNested = cs[index := updatedNestedField]"
    by (simp add: updateNestedField_def nested_or_empty_def array_store_inside)
  moreover from child_update have "children_iff_nested updatedNestedField"
    by (cases field) auto
  ultimately show ?case using child_update.prems child_update.hyps(1,2)
    by (cases field) (auto simp: FieldRow_updateField_def dest!: set_update_subset_insert [THEN subsetD])
next
  case (child_remove field cs index)
  then show ?case
    using set_filter_other_index [of index cs]
    by (cases field) (auto simp: removeNestedField_def FieldRow_updateField_def nested_or_empty_def)
qed

lemma SchemaBuilder_children_iff_nested:
  "SchemaBuilder fields ev fields' \<Longrightarrow> \<forall>f \<in> set fields. children_iff_nested f \<Longrightarrow>
   \<forall>f \<in> set fields'. children_iff_nested f"
proof (induction rule: SchemaBuilder.induct)
  case (root_add_item fields random36)
  then show ?case by (auto simp: addField_def newField_def)
next
  case (root_update index fields ev updatedField fields')
  from root_update.hyps have "fields' = fields[index := updatedField]"
    by (simp add: updateField_def array_store_inside)
  moreover from root_update have "children_iff_nested updatedField"
    by (auto intro: FieldRow_children_iff_nested)
  ultimately show ?case using root_update.prems
    by (auto dest!: set_update_subset_insert [THEN subsetD])
next
  case (root_remove index fields)
  then show ?case using set_filter_other_index [of index fields]
    by (auto simp: removeField_def)
qed

lemma reachable_children_iff_nested:
  "reachable fields \<Longrightarrow> \<forall>f \<in> set fields. children_iff_nested f"
proof (induction rule: reachable.induct)
  case initially
  show ?case by (simp add: initialFields_def)
next
  case (after_event fields ev fields')
  then show ?case by (blast dest: SchemaBuilder_children_iff_nested)
qed

section \<open>Identifiers\<close>

lemma ids_sel: "ids f = field_id f # concat (map ids (nested_or_empty f))"
  by (cases f) (simp add: nested_or_empty_def split: option.splits)

lemma concat_replace_distinct:
  assumes "distinct (concat (map g (as @ x # bs)))" and "distinct (g y)"
    and "set (g y) \<subseteq> set (g x) \<union> S" and "S \<inter> set (concat (map g (as @ x # bs))) = {}"
  shows "distinct (concat (map g (as @ y # bs)))"
proof -
  let ?A = "set (concat (map g as))" and ?B = "set (concat (map g bs))"
  from assms(1) have da: "distinct (concat (map g as))" and db: "distinct (concat (map g bs))"
    and ax: "?A \<inter> set (g x) = {}" and ab: "?A \<inter> ?B = {}" and xb: "set (g x) \<inter> ?B = {}"
    by auto
  from assms(4) have sa: "S \<inter> ?A = {}" and sb: "S \<inter> ?B = {}" by auto
  have ay: "?A \<inter> set (g y) = {}" using ax sa assms(3) by blast
  have yb: "set (g y) \<inter> ?B = {}" using xb sb assms(3) by blast
  have "distinct (concat (map g as) @ g y @ concat (map g bs))"
    using da db assms(2) ay ab yb by (simp add: Int_Un_distrib Int_Un_distrib2)
  then show ?thesis by simp
qed

lemma concat_replace_subset:
  assumes "set (g y) \<subseteq> set (g x) \<union> S"
  shows "set (concat (map g (as @ y # bs))) \<subseteq> set (concat (map g (as @ x # bs))) \<union> S"
  using assms by (simp add: subset_iff) blast

lemma concat_delete_distinct:
  "distinct (concat (map g (as @ x # bs))) \<Longrightarrow> distinct (concat (map g (as @ bs)))"
  by (simp add: Int_Un_distrib Int_Un_distrib2)

lemma concat_delete_subset:
  "set (concat (map g (as @ bs))) \<subseteq> set (concat (map g (as @ x # bs)))"
  by (simp add: subset_iff)

lemma list_split_at:
  assumes "i < length xs"
  obtains as bs where "xs = as @ xs ! i # bs" and "xs[i := y] = as @ y # bs"
    and "take i xs @ drop (Suc i) xs = as @ bs"
proof
  show "xs = take i xs @ xs ! i # drop (Suc i) xs" using assms by (rule id_take_nth_drop)
  show "xs[i := y] = take i xs @ y # drop (Suc i) xs" using assms by (rule upd_conv_take_nth_drop)
  show "take i xs @ drop (Suc i) xs = take i xs @ drop (Suc i) xs" ..
qed

lemma fresh_disjoint:
  "(\<forall>i. opt = Some i \<longrightarrow> i \<notin> A) \<longleftrightarrow> set_option opt \<inter> A = {}"
  by (cases opt) auto

lemma FieldRow_ids:
  "FieldRow field ev field' \<Longrightarrow> distinct (ids field) \<Longrightarrow>
   set_option (generated_id ev) \<inter> set (ids field) = {} \<Longrightarrow>
   distinct (ids field') \<and> set (ids field') \<subseteq> set (ids field) \<union> set_option (generated_id ev)"
proof (induction rule: FieldRow.induct)
  case (name_input field v)
  then show ?case by (cases field) (simp add: FieldRow_updateField_def)
next
  case (type_select field v)
  then show ?case by (cases field) (auto simp: onValueChange_eq split: option.splits)
next
  case (enabled_switch field b)
  then show ?case by (cases field) (simp add: FieldRow_updateField_def)
next
  case (add_item field random36)
  then show ?case
    by (cases field) (auto simp: addNestedField_def FieldRow_updateField_def nested_or_empty_def newField_def split: option.splits)
next
  case (child_update field cs index ev updatedNestedField newNested)
  let ?S = "set_option (generated_id ev)"
  let ?x = "cs ! index" and ?y = updatedNestedField
  from child_update.hyps have new: "newNested = cs[index := ?y]"
    by (simp add: updateNestedField_def nested_or_empty_def array_store_inside)
  from child_update.hyps(3) obtain as bs where
    cs: "cs = as @ ?x # bs" and upd: "cs[index := ?y] = as @ ?y # bs"
    by (rule list_split_at)
  from child_update.hyps(2) have ids: "ids field = field_id field # concat (map ids (as @ ?x # bs))"
    using cs by (simp add: ids_sel nested_or_empty_def)
  from child_update.prems(1) ids have dcs: "distinct (concat (map ids (as @ ?x # bs)))"
    and idn: "field_id field \<notin> set (concat (map ids (as @ ?x # bs)))" by simp_all
  from child_update.prems(2) ids have disj: "?S \<inter> set (concat (map ids (as @ ?x # bs))) = {}"
    and nid: "field_id field \<notin> ?S" by auto
  from dcs have dchild: "distinct (ids ?x)" by simp
  from disj have fresh_child: "?S \<inter> set (ids ?x) = {}" by auto
  from child_update.IH [OF dchild] fresh_child
  have du: "distinct (ids ?y)" and su: "set (ids ?y) \<subseteq> set (ids ?x) \<union> ?S" by simp_all
  have d': "distinct (concat (map ids (as @ ?y # bs)))"
    using dcs du su disj by (rule concat_replace_distinct [where g = ids])
  have s': "set (concat (map ids (as @ ?y # bs))) \<subseteq> set (concat (map ids (as @ ?x # bs))) \<union> ?S"
    using su by (rule concat_replace_subset [where g = ids])
  have ids': "ids (FieldRow_updateField (only_nested newNested) field)
      = field_id field # concat (map ids (as @ ?y # bs))"
    by (simp add: FieldRow_updateField_def new upd)
  have "field_id field \<notin> set (concat (map ids (as @ ?y # bs)))"
    using s' idn nid by blast
  with d' s' show ?case
    unfolding ids' ids by (simp add: subset_iff del: set_concat map_append)
next
  case (child_remove field cs index)
  let ?x = "cs ! index"
  from child_remove.hyps(3) obtain as bs where
    cs: "cs = as @ ?x # bs" and rm: "take index cs @ drop (Suc index) cs = as @ bs"
    by (rule list_split_at)
  from child_remove.hyps(2) have ids: "ids field = field_id field # concat (map ids (as @ ?x # bs))"
    using cs by (simp add: ids_sel nested_or_empty_def)
  have ids': "ids (removeNestedField index field) = field_id field # concat (map ids (as @ bs))"
    using child_remove.hyps(2) rm
    by (simp add: removeNestedField_def FieldRow_updateField_def nested_or_empty_def filter_other_index_eq)
  from child_remove.prems(1) ids have dcs: "distinct (concat (map ids (as @ ?x # bs)))"
    and idn: "field_id field \<notin> set (concat (map ids (as @ ?x # bs)))" by simp_all
  have d': "distinct (concat (map ids (as @ bs)))" using dcs by (rule concat_delete_distinct [where g = ids])
  have s': "set (concat (map ids (as @ bs))) \<subseteq> set (concat (map ids (as @ ?x # bs)))"
    by (rule concat_delete_subset [where g = ids])
  have "field_id field \<notin> set (concat (map ids (as @ bs)))" using s' idn by blast
  with d' s' show ?case
    unfolding ids' ids by (simp add: subset_iff del: set_concat map_append)
qed

lemma SchemaBuilder_ids:
  "SchemaBuilder fields ev fields' \<Longrightarrow> distinct (all_ids fields) \<Longrightarrow>
   set_option (generated_id ev) \<inter> set (all_ids fields) = {} \<Longrightarrow>
   distinct (all_ids fields')"
proof (induction rule: SchemaBuilder.induct)
  case (root_add_item fields random36)
  then show ?case by (simp add: addField_def newField_def all_ids_def)
next
  case (root_update index fields ev updatedField fields')
  let ?S = "set_option (generated_id ev)"
  let ?x = "fields ! index"
  from root_update.hyps have new: "fields' = fields[index := updatedField]"
    by (simp add: updateField_def array_store_inside)
  from root_update.hyps(1) obtain as bs where
    fs: "fields = as @ ?x # bs" and upd: "fields[index := updatedField] = as @ updatedField # bs"
    by (rule list_split_at)
  from root_update.prems(1) have dcs: "distinct (concat (map ids (as @ ?x # bs)))"
    using fs by (simp add: all_ids_def)
  from root_update.prems(2) have disj: "?S \<inter> set (concat (map ids (as @ ?x # bs))) = {}"
    using fs by (simp add: all_ids_def)
  from dcs have dchild: "distinct (ids ?x)" by simp
  from disj have fresh_child: "?S \<inter> set (ids ?x) = {}" by auto
  from FieldRow_ids [OF root_update.hyps(2) dchild fresh_child]
  have du: "distinct (ids updatedField)"
    and su: "set (ids updatedField) \<subseteq> set (ids ?x) \<union> ?S" by simp_all
  have "distinct (concat (map ids (as @ updatedField # bs)))"
    using dcs du su disj by (rule concat_replace_distinct [where g = ids])
  then show ?case by (simp only: new upd all_ids_def)
next
  case (root_remove index fields)
  let ?x = "fields ! index"
  from root_remove.hyps(1) obtain as bs where
    fs: "fields = as @ ?x # bs" and rm: "take index fields @ drop (Suc index) fields = as @ bs"
    by (rule list_split_at)
  from root_remove.prems(1) have dcs: "distinct (concat (map ids (as @ ?x # bs)))"
    using fs by (simp add: all_ids_def)
  have "distinct (concat (map ids (as @ bs)))"
    using dcs by (rule concat_delete_distinct [where g = ids])
  then show ?case by (simp only: removeField_def filter_other_index_eq rm all_ids_def)
qed

section \<open>Lemmas on the projection\<close>

lemma map_of_assign:
  "key \<noteq> ''__proto__'' \<Longrightarrow> map_of (assign result key v) = (map_of result)(key \<mapsto> v)"
  by (simp add: assign_def update_conv')

lemma map_of_assign_proto: "map_of (assign result ''__proto__'' v) = map_of result"
  by (simp add: assign_def)

lemma keys_assign:
  "fst ` set (assign result key v) =
     (if key = ''__proto__'' then fst ` set result else insert key (fst ` set result))"
  by (simp add: assign_def dom_update)

lemma distinct_assign:
  "distinct (map fst result) \<Longrightarrow> distinct (map fst (assign result key v))"
  by (simp add: assign_def distinct_update)

lemma callback_disabled: "\<not> enabled field \<Longrightarrow> callback field result = result"
  by (cases field) simp

lemma forEach_append: "forEach (xs @ ys) result = forEach ys (forEach xs result)"
  by (induction xs arbitrary: result) simp_all

lemma forEach_filter_enabled: "forEach (filter enabled fields) result = forEach fields result"
  by (induction fields arbitrary: result) (simp_all add: callback_disabled)

lemma dropDisabled_sel [simp]:
  "name (dropDisabled f) = name f" "enabled (dropDisabled f) = enabled f" "type (dropDisabled f) = type f"
  by (cases f; simp)+

lemma enabledOnly_deep:
  "convertFieldsToSchema (enabledOnly fields) = convertFieldsToSchema fields"
  "forEach (enabledOnly fields) result = forEach fields result"
  "callback (dropDisabled field) result = callback field result"
proof (induction fields and fields result and field result rule: convertFieldsToSchema_forEach_callback.induct)
  case (1 fields)
  then show ?case by simp
next
  case (2 result)
  then show ?case by (simp add: enabledOnly_def)
next
  case (3 field rest result)
  then show ?case by (cases "enabled field") (simp_all add: enabledOnly_def callback_disabled)
next
  case (4 i fieldName t e ns result)
  show ?case
  proof (cases "e \<and> t = Nested")
    case False
    then show ?thesis by (cases t) auto
  next
    case True
    show ?thesis
    proof (cases ns)
      case None
      with True show ?thesis by simp
    next
      case (Some cs)
      show ?thesis
      proof (cases "0 < length cs")
        case False
        with True Some show ?thesis by simp
      next
        case nonempty: True
        from "4" True Some nonempty
        have ih: "convertFieldsToSchema (enabledOnly cs) = convertFieldsToSchema cs" by simp
        from True Some nonempty ih show ?thesis
          by (auto simp: enabledOnly_def)
      qed
    qed
  qed
qed

lemma callback_eq:
  "callback field result =
     (if enabled field then assign result (name field) (projected_value field) else result)"
  by (cases field) (auto simp: projected_value_def split: FieldType.splits option.splits)

lemma keys_forEach:
  "fst ` set (forEach fields result) =
     fst ` set result \<union> {name f | f. f \<in> set fields \<and> enabled f \<and> name f \<noteq> ''__proto__''}"
proof (induction fields arbitrary: result)
  case Nil
  show ?case by simp
next
  case (Cons field rest)
  have "fst ` set (callback field result) =
      fst ` set result \<union> (if enabled field \<and> name field \<noteq> ''__proto__'' then {name field} else {})"
    by (simp add: callback_eq keys_assign)
  then show ?case
    unfolding forEach.simps Cons.IH by (simp split: if_splits) blast+
qed

lemma distinct_forEach:
  "distinct (map fst result) \<Longrightarrow> distinct (map fst (forEach fields result))"
  by (induction fields arbitrary: result) (simp_all add: callback_eq distinct_assign)

lemma forEach_untouched:
  "\<forall>g \<in> set fields. enabled g \<longrightarrow> name g \<noteq> key \<Longrightarrow>
   map_of (forEach fields result) key = map_of result key"
proof (induction fields arbitrary: result)
  case Nil
  show ?case by simp
next
  case (Cons field rest)
  have "map_of (callback field result) key = map_of result key"
  proof (cases "enabled field")
    case True
    with Cons.prems have "name field \<noteq> key" by simp
    with True show ?thesis
      by (cases "name field = ''__proto__''") (simp_all add: callback_eq map_of_assign map_of_assign_proto)
  next
    case False
    then show ?thesis by (simp add: callback_eq)
  qed
  with Cons show ?case by simp
qed

lemma entry_last_enabled:
  assumes "enabled field" and "name field \<noteq> ''__proto__''"
    and "\<forall>g \<in> set post. enabled g \<longrightarrow> name g \<noteq> name field"
  shows "entry (generateSchema (pre @ field # post)) (name field) = Some (projected_value field)"
proof -
  have "map_of (forEach (pre @ field # post) []) (name field)
      = map_of (callback field (forEach pre [])) (name field)"
    using assms(3) by (simp add: forEach_append forEach_untouched)
  also have "\<dots> = Some (projected_value field)"
    using assms(1,2) by (simp add: callback_eq map_of_assign)
  finally show ?thesis by (simp add: generateSchema_def)
qed

lemma keys_generateSchema:
  "distinct (keys (generateSchema fields))"
  "set (keys (generateSchema fields)) = {name f | f. f \<in> set fields \<and> enabled f \<and> name f \<noteq> ''__proto__''}"
  by (simp_all add: generateSchema_def distinct_forEach keys_forEach)

section \<open>Field Tree: rejection of invalid indices\<close>

text \<open>
  C1, as the code has it. No handler rejects an index or reports an error: the result
  types have no failure. \<^verbatim>\<open>removeField\<close> with an index at or beyond the end of the
  sequence returns the sequence unchanged, and so does \<^verbatim>\<open>removeNestedField\<close> one
  level down, for a field that has children.
\<close>

theorem invalid_index_not_rejected:
  "(length prev \<le> index \<longrightarrow> removeField index prev = prev)
   \<and> (nested field = Some cs \<longrightarrow> length cs \<le> index \<longrightarrow> removeNestedField index field = field)"
proof (intro conjI impI)
  assume "length prev \<le> index"
  then show "removeField index prev = prev"
    by (simp add: removeField_def filter_other_index_beyond)
next
  assume "nested field = Some cs" and "length cs \<le> index"
  then show "removeNestedField index field = field"
    by (cases field)
      (simp add: removeNestedField_def FieldRow_updateField_def nested_or_empty_def
        filter_other_index_beyond)
qed

theorem invalid_index_not_rejected_witness:
  "length example1 \<le> 2 \<and> removeField 2 example1 = example1
   \<and> nested (example2 ! 0) = Some [SchemaField ''4'' ''line'' Number True None,
         SchemaField ''5'' '''' String True None]
   \<and> length [SchemaField ''4'' ''line'' Number True None, SchemaField ''5'' '''' String True None] \<le> 7
   \<and> removeNestedField 7 (example2 ! 0) = example2 ! 0"
proof -
  have h1: "length example1 \<le> 2" by (simp add: example1_def)
  have h2: "nested (example2 ! 0) = Some [SchemaField ''4'' ''line'' Number True None,
         SchemaField ''5'' '''' String True None]" by (simp add: example2_def)
  from invalid_index_not_rejected [of example1 2 "example2 ! 0"
      "[SchemaField ''4'' ''line'' Number True None, SchemaField ''5'' '''' String True None]" ] h1 h2
    invalid_index_not_rejected [of example1 7 "example2 ! 0"
      "[SchemaField ''4'' ''line'' Number True None, SchemaField ''5'' '''' String True None]" ]
  show ?thesis by simp
qed

text \<open>
  On the two fields of Example 1, \<^verbatim>\<open>updateField(2, f)\<close> addresses no existing
  field; the write is not rejected, and the tree has three fields afterwards.
\<close>

theorem updateField_beyond_end_applied:
  "updateField 2 (SchemaField ''9'' ''zip'' Number True None) example1
     = map Some (example1 @ [SchemaField ''9'' ''zip'' Number True None])
   \<and> updateField 2 (SchemaField ''9'' ''zip'' Number True None) example1 \<noteq> map Some example1"
  by (simp add: updateField_def array_store_def example1_def)

section \<open>Field Tree: uniqueness of identifiers\<close>

text \<open>
  C8, as the code has it. \<^verbatim>\<open>generateId\<close> draws the identifier from
  \<^verbatim>\<open>Math.random\<close> and compares it with nothing. The identifiers of the tree are
  pairwise distinct in every state reached by events whose generated identifier was
  not in the tree when it was generated.
\<close>

theorem ids_distinct_while_fresh:
  "reachable_with_fresh_ids fields \<Longrightarrow> distinct (all_ids fields)"
proof (induction rule: reachable_with_fresh_ids.induct)
  case fresh_initially
  show ?case by (simp add: initialFields_def all_ids_def)
next
  case (fresh_after_event fields ev fields')
  then show ?case by (simp add: SchemaBuilder_ids fresh_disjoint)
qed

theorem ids_distinct_while_fresh_witness:
  "reachable_with_fresh_ids (addField ''0.k3f9x'' initialFields)
   \<and> distinct (all_ids (addField ''0.k3f9x'' initialFields))"
proof -
  have "\<forall>i. generated_id (AddItem ''0.k3f9x'') = Some i \<longrightarrow> i \<notin> set (all_ids initialFields)"
    by (simp add: generateId_def initialFields_def all_ids_def)
  then have h: "reachable_with_fresh_ids (addField ''0.k3f9x'' initialFields)"
    by (rule fresh_after_event [OF fresh_initially root_add_item])
  from ids_distinct_while_fresh [OF h] h show ?thesis by simp
qed

text \<open>
  Two clicks on \<^verbatim>\<open>+ Add Item\<close> for which \<^verbatim>\<open>Math.random()\<close> returns
  \<open>0.5\<close> both times (\<^verbatim>\<open>(0.5).toString(36)\<close> is \<^verbatim>\<open>"0.i"\<close>) give two fields
  with the identifier \<^verbatim>\<open>"i"\<close>.
\<close>

theorem generated_id_collides:
  "reachable (addField ''0.i'' (addField ''0.i'' initialFields))
   \<and> \<not> distinct (all_ids (addField ''0.i'' (addField ''0.i'' initialFields)))"
proof
  show "reachable (addField ''0.i'' (addField ''0.i'' initialFields))"
    by (rule after_event [OF after_event [OF initially root_add_item] root_add_item])
  show "\<not> distinct (all_ids (addField ''0.i'' (addField ''0.i'' initialFields)))"
    by (simp add: addField_def initialFields_def all_ids_def newField_def generateId_def)
qed

section \<open>Field Tree: type and children\<close>

text \<open>
  C6. Selecting a type other than Nested clears \<^verbatim>\<open>nested\<close> and sets the type;
  selecting Nested on a field without children sets \<^verbatim>\<open>nested\<close> to the empty
  array; hence switching a field away from Nested and back leaves it with empty
  children, whatever it had before. In every state reachable from the initial one, each
  field at each depth has children if and only if its type is Nested.
\<close>

theorem type_switch_children:
  "(v \<noteq> Nested \<longrightarrow>
      nested (onValueChange v field) = None \<and> type (onValueChange v field) = v)
   \<and> (nested field = None \<longrightarrow>
      nested (onValueChange Nested field) = Some [] \<and> type (onValueChange Nested field) = Nested)
   \<and> (v \<noteq> Nested \<longrightarrow> nested (onValueChange Nested (onValueChange v field)) = Some [])
   \<and> (reachable fields \<longrightarrow> (\<forall>f \<in> set fields. children_iff_nested f))"
  by (simp add: onValueChange_eq reachable_children_iff_nested)

theorem type_switch_children_witness:
  "nested (onValueChange String (initialFields ! 2)) = None
   \<and> type (onValueChange String (initialFields ! 2)) = String
   \<and> nested (onValueChange Nested (SchemaField ''1'' ''name'' String True None)) = Some []
   \<and> nested (onValueChange Nested (onValueChange String (initialFields ! 2))) = Some []
   \<and> reachable
        [SchemaField ''1'' ''name'' String True None,
         SchemaField ''2'' ''class'' Number True None,
         SchemaField ''3'' ''address'' String True None]
   \<and> children_iff_nested (SchemaField ''3'' ''address'' String True None)"
proof -
  let ?fields = "[SchemaField ''1'' ''name'' String True None,
         SchemaField ''2'' ''class'' Number True None,
         SchemaField ''3'' ''address'' String True None]"
  have step: "SchemaBuilder initialFields (Row 2 (TypeSelect String)) ?fields"
  proof (rule root_update [where updatedField = "onValueChange String (initialFields ! 2)"])
    show "2 < length initialFields" by (simp add: initialFields_def)
    show "FieldRow (initialFields ! 2) (TypeSelect String) (onValueChange String (initialFields ! 2))"
      by (rule type_select)
    show "updateField 2 (onValueChange String (initialFields ! 2)) initialFields = map Some ?fields"
      by (simp add: updateField_def array_store_def initialFields_def onValueChange_eq)
  qed
  have r: "reachable ?fields" by (rule after_event [OF initially step])
  have n: "nested (SchemaField ''1'' ''name'' String True None) = None" by simp
  from type_switch_children [of String "initialFields ! 2" ?fields]
    type_switch_children [of String "SchemaField ''1'' ''name'' String True None" ?fields] r n
  show ?thesis by simp
qed

section \<open>Schema Projector: the claims\<close>

text \<open>
  C2. Example 1 projects to \<^verbatim>\<open>{"name":"STRING","class":"number"}\<close>. A Number field
  does not project to \<^verbatim>\<open>"number"\<close> whatever its name: for the name
  \<^verbatim>\<open>__proto__\<close> the assignment creates no property, the projection of the tree with
  that single field is \<^verbatim>\<open>{}\<close> and has no entry under the name.
\<close>

theorem number_field_named_proto:
  "generateSchema example1 = JObject [(''name'', JString ''STRING''), (''class'', JString ''number'')]
   \<and> generateSchema [SchemaField ''1'' ''__proto__'' Number True None] = JObject []
   \<and> entry (generateSchema [SchemaField ''1'' ''__proto__'' Number True None]) ''__proto__'' = None"
  by (simp add: generateSchema_def example1_def assign_def)

text \<open>
  C3. A String field with the empty name projects to the empty string under the empty key,
  and one named \<^verbatim>\<open>name\<close> to the placeholder; a String field named
  \<^verbatim>\<open>__proto__\<close> has a name that is not empty and yet gets no entry at all.
\<close>

theorem string_field_named_proto:
  "generateSchema [SchemaField ''5'' '''' String True None] = JObject [('''', JString '''')]
   \<and> generateSchema [SchemaField ''1'' ''name'' String True None] = JObject [(''name'', JString ''STRING'')]
   \<and> generateSchema [SchemaField ''1'' ''__proto__'' String True None] = JObject []
   \<and> entry (generateSchema [SchemaField ''1'' ''__proto__'' String True None]) ''__proto__'' = None"
  by (simp add: generateSchema_def assign_def)

text \<open>
  C4. Example 2 projects to \<^verbatim>\<open>{"address":{"line":"number","":""}}\<close>, and a Nested field
  with empty children to \<^verbatim>\<open>{}\<close> under its name; a Nested field named
  \<^verbatim>\<open>__proto__\<close> with one child gets no entry: the projection of its children
  becomes the prototype of \<^verbatim>\<open>result\<close>, not a property.
\<close>

theorem nested_field_named_proto:
  "generateSchema example2
     = JObject [(''address'', JObject [(''line'', JString ''number''), ('''', JString '''')])]
   \<and> generateSchema [SchemaField ''3'' ''address'' Nested True (Some [])] = JObject [(''address'', JObject [])]
   \<and> generateSchema
       [SchemaField ''3'' ''__proto__'' Nested True (Some [SchemaField ''4'' ''line'' Number True None])]
     = JObject []"
  by (simp add: generateSchema_def example2_def assign_def)

text \<open>
  C5. A disabled field contributes nothing to the projection. The callback returns
  \<^verbatim>\<open>result\<close> as it received it, whatever the subtree of the field; the projection of a
  tree is the projection of the tree without its disabled fields, dropped at every depth;
  a key that only disabled siblings bear is not a key of the projection; and Example 3
  projects to \<^verbatim>\<open>{"name":"STRING"}\<close>.
\<close>

theorem projection_of_disabled_fields:
  "(\<not> enabled field \<longrightarrow> callback field result = result)
   \<and> generateSchema (enabledOnly fields) = generateSchema fields
   \<and> ((\<forall>f \<in> set fields. name f = key \<longrightarrow> \<not> enabled f) \<longrightarrow> key \<notin> set (keys (generateSchema fields)))
   \<and> generateSchema example3 = JObject [(''name'', JString ''STRING'')]"
proof (intro conjI)
  show "\<not> enabled field \<longrightarrow> callback field result = result"
    by (simp add: callback_disabled)
  show "generateSchema (enabledOnly fields) = generateSchema fields"
    unfolding generateSchema_def by (rule enabledOnly_deep(1))
  show "(\<forall>f \<in> set fields. name f = key \<longrightarrow> \<not> enabled f) \<longrightarrow> key \<notin> set (keys (generateSchema fields))"
    unfolding keys_generateSchema(2) by blast
  show "generateSchema example3 = JObject [(''name'', JString ''STRING'')]"
    by (simp add: generateSchema_def example3_def assign_def)
qed

theorem projection_of_disabled_fields_witness:
  "callback (SchemaField ''3'' ''address'' Nested False (Some [SchemaField ''4'' ''line'' Number True None])) [] = []
   \<and> ''class'' \<notin> set (keys (generateSchema example3))
   \<and> generateSchema (enabledOnly example3) = generateSchema example3
   \<and> enabledOnly example3 = [SchemaField ''1'' ''name'' String True None]"
proof -
  have h: "\<forall>f \<in> set example3. name f = ''class'' \<longrightarrow> \<not> enabled f"
    by (simp add: example3_def)
  have e: "enabledOnly example3 = [SchemaField ''1'' ''name'' String True None]"
    by (simp add: enabledOnly_def example3_def)
  from projection_of_disabled_fields
    [of "SchemaField ''3'' ''address'' Nested False (Some [SchemaField ''4'' ''line'' Number True None])"
      "[]" example3 "''class''"] h e
  show ?thesis by simp
qed

text \<open>
  C7. Two enabled siblings named \<^verbatim>\<open>a\<close> give one entry, with the value of the
  later one. Two enabled siblings named \<^verbatim>\<open>__proto__\<close> give no entry for that
  name, where exactly one is claimed.
\<close>

theorem duplicate_names_proto:
  "generateSchema
     [SchemaField ''1'' ''a'' String True None, SchemaField ''2'' ''a'' Number True None]
     = JObject [(''a'', JString ''number'')]
   \<and> generateSchema
     [SchemaField ''1'' ''__proto__'' String True None, SchemaField ''2'' ''__proto__'' Number True None]
     = JObject []
   \<and> ''__proto__'' \<notin> set (keys (generateSchema
     [SchemaField ''1'' ''__proto__'' String True None, SchemaField ''2'' ''__proto__'' Number True None]))"
  by (simp add: generateSchema_def assign_def)

text \<open>
  C9. The projection is a function of the tree: equal trees have equal projections. It
  returns for every tree, and what it returns is an object.
\<close>

theorem projection_deterministic_total:
  "(fields = fields' \<longrightarrow> generateSchema fields = generateSchema fields')
   \<and> (\<exists>props. generateSchema fields = JObject props)"
  by (simp add: generateSchema_def)

theorem projection_deterministic_total_witness:
  "example1 = example1 \<and> generateSchema example1 = generateSchema example1
   \<and> (\<exists>props. generateSchema example1 = JObject props)"
  using projection_deterministic_total [of example1 example1] by simp

text \<open>
  Trees that break the invariant on children. An enabled Nested field without
  \<^verbatim>\<open>nested\<close> is projected as the same field with empty children, in every tree; the
  children of a String or Number field are never read; and the result is an object for
  every tree.
\<close>

lemma children_absent_or_ignored:
  "callback (SchemaField i n Nested e None) result = callback (SchemaField i n Nested e (Some [])) result
   \<and> generateSchema (pre @ SchemaField i n Nested e None # post)
       = generateSchema (pre @ SchemaField i n Nested e (Some []) # post)
   \<and> callback (SchemaField i n String e ns) result = callback (SchemaField i n String e None) result
   \<and> callback (SchemaField i n Number e ns) result = callback (SchemaField i n Number e None) result
   \<and> generateSchema (pre @ SchemaField i n String e ns # post)
       = generateSchema (pre @ SchemaField i n String e None # post)
   \<and> generateSchema (pre @ SchemaField i n Number e ns # post)
       = generateSchema (pre @ SchemaField i n Number e None # post)
   \<and> (\<exists>props. generateSchema fields = JObject props)"
  by (simp add: generateSchema_def forEach_append)

text \<open>
  Under every name but \<^verbatim>\<open>__proto__\<close>, an enabled Nested field without
  \<^verbatim>\<open>nested\<close> has the entry \<^verbatim>\<open>{}\<close> in the projection of its tree, unless a later
  enabled sibling bears the same name; and an enabled String or Number field with
  children attached has the entry of the same field without them.
\<close>

lemma nested_absent_entry:
  assumes "n \<noteq> ''__proto__''" and "\<forall>g \<in> set post. enabled g \<longrightarrow> name g \<noteq> n"
  shows "entry (generateSchema (pre @ SchemaField i n Nested True None # post)) n = Some (JObject [])"
  using entry_last_enabled [of "SchemaField i n Nested True None" post pre] assms
  by (simp add: projected_value_def)

lemma children_ignored_entry:
  assumes "n \<noteq> ''__proto__''" and "\<forall>g \<in> set post. enabled g \<longrightarrow> name g \<noteq> n"
  shows "entry (generateSchema (pre @ SchemaField i n String True ns # post)) n
           = Some (JString (if n = '''' then '''' else ''STRING''))"
    and "entry (generateSchema (pre @ SchemaField i n Number True ns # post)) n
           = Some (JString ''number'')"
  using entry_last_enabled [of "SchemaField i n String True ns" post pre]
    entry_last_enabled [of "SchemaField i n Number True ns" post pre] assms
  by (simp_all add: projected_value_def)


end
